theory Spec2Isabelle
  imports Main
begin

section \<open>Strings\<close>

text \<open>
  A Python \<^verbatim>\<open>str\<close> is a sequence of code points. The model is \<^typ>\<open>string\<close>, a list of
  \<^typ>\<open>char\<close>, each character read as the code point of the same number
  (U+0000 to U+00FF). On that range \<^verbatim>\<open>str.lower\<close> maps one code point to one code point
  of the same range, so the three string predicates below are the ones of CPython
  restricted to it.
\<close>

definition is_space :: "char \<Rightarrow> bool" where
  \<comment> \<open>the whitespace of \<^verbatim>\<open>str.split()\<close> and \<^verbatim>\<open>str.strip()\<close>: TAB..CR, FS..US, space, NEL, NBSP\<close>
  "is_space c =
     (let n = (of_char c :: nat)
      in (9 \<le> n \<and> n \<le> 13) \<or> (28 \<le> n \<and> n \<le> 32) \<or> n = 133 \<or> n = 160)"

definition is_ascii_alpha :: "char \<Rightarrow> bool" where
  \<comment> \<open>the character class \<^verbatim>\<open>[a-zA-Z]\<close>\<close>
  "is_ascii_alpha c =
     (let n = (of_char c :: nat)
      in (65 \<le> n \<and> n \<le> 90) \<or> (97 \<le> n \<and> n \<le> 122))"


definition lower_char :: "char \<Rightarrow> char" where
  \<comment> \<open>A..Z and the capital letters U+00C0..U+00DE (without the sign U+00D7) move up by 32\<close>
  "lower_char c =
     (let n = (of_char c :: nat)
      in if (65 \<le> n \<and> n \<le> 90) \<or> (192 \<le> n \<and> n \<le> 222 \<and> n \<noteq> 215)
         then char_of (n + 32) else c)"

definition lower :: "string \<Rightarrow> string" where
  \<comment> \<open>\<^verbatim>\<open>str.lower()\<close>\<close>
  "lower s = map lower_char s"

fun maximal_runs :: "(char \<Rightarrow> bool) \<Rightarrow> string \<Rightarrow> string \<Rightarrow> string list" where
  \<comment> \<open>one left-to-right scan that collects the maximal runs of characters satisfying
      \<open>P\<close>; \<open>cur\<close> is the run being read\<close>
  "maximal_runs P cur [] = (if cur = [] then [] else [cur])"
| "maximal_runs P cur (c # cs) =
     (if P c then maximal_runs P (cur @ [c]) cs
      else if cur = [] then maximal_runs P [] cs
      else cur # maximal_runs P [] cs)"

definition split :: "string \<Rightarrow> string list" where
  \<comment> \<open>\<^verbatim>\<open>str.split()\<close> with no argument: the runs of non-whitespace characters\<close>
  "split s = maximal_runs (\<lambda>c. \<not> is_space c) [] s"

fun split_sep :: "(char \<Rightarrow> bool) \<Rightarrow> string \<Rightarrow> string list" where
  \<comment> \<open>cut at every single separator character, keeping empty pieces, as
      \<^verbatim>\<open>str.split(",")\<close> does for the separator \<^verbatim>\<open>","\<close>\<close>
  "split_sep P [] = [[]]"
| "split_sep P (c # cs) =
     (if P c then [] # split_sep P cs
      else (case split_sep P cs of
              [] \<Rightarrow> [[c]]
            | w # ws \<Rightarrow> (c # w) # ws))"

definition strip :: "string \<Rightarrow> string" where
  \<comment> \<open>\<^verbatim>\<open>str.strip()\<close>: whitespace removed at both ends\<close>
  "strip s = rev (dropWhile is_space (rev (dropWhile is_space s)))"

definition join :: "string \<Rightarrow> string list \<Rightarrow> string" where
  \<comment> \<open>\<^verbatim>\<open>sep.join(xs)\<close>\<close>
  "join sep xs = (case xs of [] \<Rightarrow> [] | y # ys \<Rightarrow> y @ concat (map (\<lambda>z. sep @ z) ys))"

function count_sub :: "string \<Rightarrow> string \<Rightarrow> nat" where
  \<comment> \<open>\<^verbatim>\<open>text.count(sub)\<close>: scan from the left; at a match count one and resume right
      after it, otherwise move one character on. An empty \<open>sub\<close> matches between all
      characters and at both ends.\<close>
  "count_sub sub text =
     (if sub = [] then length text + 1
      else if length text < length sub then 0
      else if take (length sub) text = sub
           then Suc (count_sub sub (drop (length sub) text))
      else count_sub sub (tl text))"
  by pat_completeness auto
termination
proof (relation "measure (\<lambda>(sub, t). length t)")
  fix sub t :: string
  assume "sub \<noteq> []" and "\<not> length t < length sub"
  then have "0 < length sub" and "length sub \<le> length t"
    by simp_all
  then have "length t - length sub < length t"
    by arith
  then show "((sub, drop (length sub) t), (sub, t)) \<in> measure (\<lambda>(sub, t). length t)"
    by simp
next
  fix sub t :: string
  assume "sub \<noteq> []" and "\<not> length t < length sub"
  then have "0 < length sub" and "length sub \<le> length t"
    by simp_all
  then have "length t - 1 < length t"
    by arith
  then show "((sub, tl t), (sub, t)) \<in> measure (\<lambda>(sub, t). length t)"
    by simp
qed simp

declare count_sub.simps [simp del]

definition re_findall_alpha :: "string \<Rightarrow> string list" where
  \<comment> \<open>\<^verbatim>\<open>re.findall(r"[a-zA-Z]+", s)\<close>: the leftmost, longest, non-overlapping matches\<close>
  "re_findall_alpha s = maximal_runs is_ascii_alpha [] s"

section \<open>Dictionaries\<close>

text \<open>
  A \<^verbatim>\<open>dict\<close> keeps its keys in the order of their first insertion; assigning to a key
  that is present replaces the value where it stands. The model is an association list.
\<close>

type_synonym ('k, 'v) dict = "('k \<times> 'v) list"

fun dict_set :: "'k \<Rightarrow> 'v \<Rightarrow> ('k, 'v) dict \<Rightarrow> ('k, 'v) dict" where
  \<comment> \<open>\<^verbatim>\<open>d[k] = v\<close>\<close>
  "dict_set k v [] = [(k, v)]"
| "dict_set k v ((k', v') # d) = (if k' = k then (k, v) # d else (k', v') # dict_set k v d)"

definition dict_get :: "('k, 'v) dict \<Rightarrow> 'k \<Rightarrow> 'v \<Rightarrow> 'v" where
  \<comment> \<open>\<^verbatim>\<open>d.get(k, default)\<close>\<close>
  "dict_get d k dflt = (case map_of d k of None \<Rightarrow> dflt | Some v \<Rightarrow> v)"

definition keys :: "('k, 'v) dict \<Rightarrow> 'k list" where
  "keys d = map fst d"

definition Counter :: "'k list \<Rightarrow> ('k, int) dict" where
  \<comment> \<open>\<^verbatim>\<open>Counter(xs)\<close>: one pass, each element adds one to its entry\<close>
  "Counter xs = foldl (\<lambda>d x. dict_set x (dict_get d x 0 + 1) d) [] xs"

definition most_common :: "nat \<Rightarrow> ('k, int) dict \<Rightarrow> ('k \<times> int) list" where
  \<comment> \<open>\<^verbatim>\<open>Counter.most_common(n)\<close>: the first \<open>n\<close> entries of a stable sort by
      decreasing count\<close>
  "most_common n d = take n (sort_key (\<lambda>(w, c). - c) d)"

section \<open>Parse and analyze\<close>

datatype error =
    RequestException string
  | HTTPError string
  | XMLSyntaxError string
  | ValueError string
  | KeyError string

fun str :: "error \<Rightarrow> string" where
  \<comment> \<open>\<^verbatim>\<open>str(e)\<close>\<close>
  "str (RequestException m) = m"
| "str (HTTPError m) = m"
| "str (XMLSyntaxError m) = m"
| "str (ValueError m) = m"
| "str (KeyError k) = [CHR 0x27] @ k @ [CHR 0x27]"

datatype element =
  Element (tag: string) (elem_text: "string option") (children: "element list")
    (elem_tail: "string option")

fun iter :: "element \<Rightarrow> element list" where
  \<comment> \<open>\<^verbatim>\<open>root.iter()\<close>: the element, then its subtrees in document order\<close>
  "iter (Element tg tx ch ta) = Element tg tx ch ta # concat (map iter ch)"

definition text_fragments :: "element \<Rightarrow> string list" where
  "text_fragments root =
     concat (map (\<lambda>elem. case elem_text elem of
                             None \<Rightarrow> []
                           | Some s \<Rightarrow> if s = [] then [] else [strip s])
                 (iter root))"

definition parse_ecfr_xml :: "(string \<Rightarrow> error + element) \<Rightarrow> string \<Rightarrow> error + string" where
  \<comment> \<open>\<open>fromstring\<close> is the XML parser of the library\<close>
  "parse_ecfr_xml fromstring xml_string =
     (case fromstring xml_string of
        Inl e \<Rightarrow> Inl e
      | Inr root \<Rightarrow> Inr (join '' '' (text_fragments root)))"

definition stopwords :: "string list" where
  "stopwords = [''the'', ''and'', ''of'', ''to'', ''in'', ''a'', ''for'', ''on'', ''is'',
     ''that'', ''with'', ''by'', ''at'', ''an'', ''be'', ''are'', ''as'', ''or'', ''this'']"

definition tokens :: "string \<Rightarrow> string list" where
  \<comment> \<open>the local \<^verbatim>\<open>tokens\<close> of \<^verbatim>\<open>get_top_words\<close>\<close>
  "tokens text = re_findall_alpha (lower text)"

definition filtered :: "string \<Rightarrow> string list" where
  \<comment> \<open>the local \<^verbatim>\<open>filtered\<close> of \<^verbatim>\<open>get_top_words\<close>\<close>
  "filtered text = filter (\<lambda>t. t \<notin> set stopwords \<and> length t > 1) (tokens text)"

definition get_top_words :: "string \<Rightarrow> nat \<Rightarrow> (string \<times> int) list" where
  "get_top_words text n = most_common n (Counter (filtered text))"

definition agencies_to_check :: "string list" where
  "agencies_to_check = [''NCPC'', ''OMB'', ''OPM'', ''NARA'', ''CIO'']"

record analysis =
  word_count :: int
  agencies :: "(string, int) dict"
  top_words :: "(string \<times> int) list"

definition analyze_ecfr_text :: "string \<Rightarrow> analysis" where
  "analyze_ecfr_text text =
     \<lparr>word_count = int (length (split text)),
      agencies = foldl (\<lambda>agency_counts agency.
                          dict_set agency (int (count_sub agency text)) agency_counts)
                   [] agencies_to_check,
      top_words = get_top_words text 10\<rparr>"

definition parse_and_analyze_ecfr_xml ::
  "(string \<Rightarrow> error + element) \<Rightarrow> string \<Rightarrow> error + analysis" where
  "parse_and_analyze_ecfr_xml fromstring xml_string =
     (case parse_ecfr_xml fromstring xml_string of
        Inl e \<Rightarrow> Inl e
      | Inr text \<Rightarrow> Inr (analyze_ecfr_text text))"

section \<open>Compare snapshots\<close>

record request_info =
  date :: string
  title :: string

record snapshot = request_info +
  analysis :: analysis

record comparison =
  word_count_change :: int
  agencies_diff :: "string \<rightharpoonup> int"

text \<open>
  The loop of \<^verbatim>\<open>compare_two_snapshots\<close> runs over a \<^verbatim>\<open>set\<close>, whose order the language
  leaves open, so the resulting dictionary is modelled without an order, as a map.
\<close>

definition compare_two_snapshots :: "snapshot \<Rightarrow> snapshot \<Rightarrow> comparison" where
  "compare_two_snapshots snapshot_a snapshot_b =
     (let all_agencies = set (keys (agencies (analysis snapshot_a)))
                         \<union> set (keys (agencies (analysis snapshot_b)))
      in \<lparr>word_count_change =
             word_count (analysis snapshot_b) - word_count (analysis snapshot_a),
          agencies_diff = (\<lambda>agency.
             if agency \<in> all_agencies
             then Some (dict_get (agencies (analysis snapshot_b)) agency 0
                        - dict_get (agencies (analysis snapshot_a)) agency 0)
             else None)\<rparr>)"

section \<open>Fetching\<close>

text \<open>
  The two requests to the versioning service are parameters of the model: \<open>get_text\<close>
  answers a URL with the body of the response, \<open>get_json\<close> with the decoded list of
  version objects, each a dictionary from field names to strings. Both stand for
  \<^verbatim>\<open>requests.get\<close> followed by \<^verbatim>\<open>raise_for_status\<close>, and return the exception raised
  there as an error.
\<close>

record provider =
  get_text :: "string \<Rightarrow> error + string"
  get_json :: "string \<Rightarrow> error + (string, string) dict list"

definition fetch_ecfr_xml :: "provider \<Rightarrow> string \<Rightarrow> string \<Rightarrow> error + string" where
  "fetch_ecfr_xml p date_str title_num =
     (let base_url = ''https://www.ecfr.gov/api/versioner/v1/full'';
          url = base_url @ ''/'' @ date_str @ ''/title-'' @ title_num @ ''.xml''
      in get_text p url)"

definition fetch_latest_snapshot_date :: "provider \<Rightarrow> string \<Rightarrow> error + string" where
  "fetch_latest_snapshot_date p title_num =
     (let url = ''https://www.ecfr.gov/api/versioner/v1/versions/title-'' @ title_num @ ''.json''
      in case get_json p url of
           Inl e \<Rightarrow> Inl e
         | Inr data \<Rightarrow>
             (case data of
                [] \<Rightarrow> Inl (ValueError ''No version data found for this title.'')
              | v # _ \<Rightarrow>
                  (case map_of v ''date'' of
                     None \<Rightarrow> Inl (KeyError ''date'')
                   | Some latest_date \<Rightarrow> Inr latest_date)))"

section \<open>Routes\<close>

text \<open>
  A route takes the query parameters (absent ones are \<open>None\<close>) and the global
  \<^verbatim>\<open>analysis_result\<close>, and returns its response with the new value of the global.
\<close>

datatype 'a response = Ok 'a | NotFound string | ServerError string

definition arg :: "string option \<Rightarrow> string \<Rightarrow> string" where
  \<comment> \<open>\<^verbatim>\<open>request.args.get(name, default)\<close>\<close>
  "arg a dflt = (case a of None \<Rightarrow> dflt | Some v \<Rightarrow> v)"

definition latest_analyze ::
  "provider \<Rightarrow> (string \<Rightarrow> error + element) \<Rightarrow> string option \<Rightarrow> snapshot option
     \<Rightarrow> snapshot response \<times> snapshot option" where
  "latest_analyze p fromstring title_arg analysis_result =
     (let title_num = arg title_arg ''1''
      in case fetch_latest_snapshot_date p title_num of
           Inl e \<Rightarrow> (ServerError (str e), analysis_result)
         | Inr latest_date \<Rightarrow>
             (case fetch_ecfr_xml p latest_date title_num of
                Inl e \<Rightarrow> (ServerError (str e), analysis_result)
              | Inr xml_data \<Rightarrow>
                  (case parse_and_analyze_ecfr_xml fromstring xml_data of
                     Inl e \<Rightarrow> (ServerError (str e), analysis_result)
                   | Inr analysis_data \<Rightarrow>
                       (let r = \<lparr>date = latest_date, title = title_num,
                                  analysis = analysis_data\<rparr>
                        in (Ok r, Some r)))))"

definition analyze ::
  "provider \<Rightarrow> (string \<Rightarrow> error + element) \<Rightarrow> string option \<Rightarrow> string option
     \<Rightarrow> snapshot option \<Rightarrow> snapshot response \<times> snapshot option" where
  "analyze p fromstring date_arg title_arg analysis_result =
     (let date_str = arg date_arg ''2025-01-01'';
          title_num = arg title_arg ''1''
      in case fetch_ecfr_xml p date_str title_num of
           Inl e \<Rightarrow> (ServerError (str e), analysis_result)
         | Inr xml_data \<Rightarrow>
             (case parse_and_analyze_ecfr_xml fromstring xml_data of
                Inl e \<Rightarrow> (ServerError (str e), analysis_result)
              | Inr analysis_data \<Rightarrow>
                  (let r = \<lparr>date = date_str, title = title_num, analysis = analysis_data\<rparr>
                   in (Ok r, Some r))))"

definition results :: "snapshot option \<Rightarrow> snapshot response" where
  "results analysis_result =
     (case analysis_result of
        None \<Rightarrow> NotFound ''No results yet''
      | Some r \<Rightarrow> Ok r)"

record search_result = request_info +
  search_keywords :: "string list"
  frequencies :: "(string, int) dict"

definition keywords_list :: "string \<Rightarrow> string list" where
  \<comment> \<open>\<^verbatim>\<open>[k.strip() for k in keywords_param.split(",") if k.strip()]\<close>\<close>
  "keywords_list keywords_param =
     map strip (filter (\<lambda>k. strip k \<noteq> []) (split_sep (\<lambda>c. c = CHR '','') keywords_param))"

definition keyword_frequencies :: "string \<Rightarrow> string list \<Rightarrow> (string, int) dict" where
  \<comment> \<open>the loop of \<^verbatim>\<open>keyword_search\<close> that fills \<^verbatim>\<open>frequencies\<close>\<close>
  "keyword_frequencies text_data kws =
     (let text_lower = lower text_data
      in foldl (\<lambda>fr kw. dict_set kw (int (count_sub (lower kw) text_lower)) fr) [] kws)"

definition keyword_search ::
  "provider \<Rightarrow> (string \<Rightarrow> error + element) \<Rightarrow> string option \<Rightarrow> string option
     \<Rightarrow> string option \<Rightarrow> search_result response" where
  "keyword_search p fromstring date_arg title_arg keywords_arg =
     (let date_str = arg date_arg ''2025-01-01'';
          title_num = arg title_arg ''1'';
          keywords_param = arg keywords_arg [];
          kws = keywords_list keywords_param
      in case fetch_ecfr_xml p date_str title_num of
           Inl e \<Rightarrow> ServerError (str e)
         | Inr xml_data \<Rightarrow>
             (case parse_ecfr_xml fromstring xml_data of
                Inl e \<Rightarrow> ServerError (str e)
              | Inr text_data \<Rightarrow>
                  Ok \<lparr>date = date_str, title = title_num, search_keywords = kws,
                      frequencies = keyword_frequencies text_data kws\<rparr>))"

section \<open>Example inputs\<close>

definition snapshot_A :: snapshot where
  "snapshot_A = \<lparr>date = ''2022-01-01'', title = ''1'',
     analysis = \<lparr>word_count = 100, agencies = [(''OMB'', 2)], top_words = []\<rparr>\<rparr>"

definition snapshot_B :: snapshot where
  "snapshot_B = \<lparr>date = ''2023-01-01'', title = ''1'',
     analysis = \<lparr>word_count = 120, agencies = [(''OMB'', 5), (''OPM'', 1)],
                 top_words = []\<rparr>\<rparr>"


definition failing_provider :: provider where
  "failing_provider = \<lparr>get_text = (\<lambda>u. Inl (HTTPError ''404 Client Error'')),
                        get_json = (\<lambda>u. Inr [])\<rparr>"

text \<open>
  The specification's reading of a word: the text is cut at every whitespace character
  and the pieces that are not empty are the whitespace-delimited tokens.
\<close>

definition whitespace_tokens :: "string \<Rightarrow> string list" where
  "whitespace_tokens text = filter (\<lambda>w. w \<noteq> []) (split_sep is_space text)"

text \<open>
  The keys of a list in the order of their first occurrence, and the specification's
  notion of counting: a list of positions, in increasing order, at each of which the
  substring occurs literally, any two occurrences disjoint.
\<close>

definition first_occurrences :: "'a list \<Rightarrow> 'a list" where
  "first_occurrences xs = rev (remdups (rev xs))"

definition occurs_at :: "string \<Rightarrow> string \<Rightarrow> nat \<Rightarrow> bool" where
  "occurs_at sub t i = (i + length sub \<le> length t \<and> take (length sub) (drop i t) = sub)"

fun non_overlapping :: "nat \<Rightarrow> nat list \<Rightarrow> bool" where
  "non_overlapping n [] = True"
| "non_overlapping n [i] = True"
| "non_overlapping n (i # j # js) = (i + n \<le> j \<and> non_overlapping n (j # js))"

definition occurrences :: "string \<Rightarrow> string \<Rightarrow> nat list \<Rightarrow> bool" where
  "occurrences sub t ps = (list_all (occurs_at sub t) ps \<and> non_overlapping (length sub) ps)"

section \<open>Properties\<close>

subsection \<open>Snapshot comparison\<close>

text \<open>
  C4. For all snapshots \<open>a\<close> and \<open>b\<close>, comparing \<open>a\<close> with \<open>b\<close> gives, field by
  field, the negation of comparing \<open>b\<close> with \<open>a\<close>: the word count change is negated, both
  results have the same agency keys, and each entry of the agency difference is negated.
  Comparing a snapshot with itself gives a word count change of 0 and an agency
  difference that is 0 at every key.
\<close>

theorem compare_antisymmetric:
  "word_count_change (compare_two_snapshots a b)
     = - word_count_change (compare_two_snapshots b a)
   \<and> dom (agencies_diff (compare_two_snapshots a b))
     = dom (agencies_diff (compare_two_snapshots b a))
   \<and> (\<forall>k. agencies_diff (compare_two_snapshots a b) k
            = map_option uminus (agencies_diff (compare_two_snapshots b a) k))
   \<and> word_count_change (compare_two_snapshots a a) = 0
   \<and> (\<forall>k \<in> dom (agencies_diff (compare_two_snapshots a a)).
          agencies_diff (compare_two_snapshots a a) k = Some 0)"
  by (auto simp add: compare_two_snapshots_def Let_def dom_def)

theorem compare_antisymmetric_witness:
  "''OMB'' \<in> dom (agencies_diff (compare_two_snapshots snapshot_A snapshot_A))
   \<and> agencies_diff (compare_two_snapshots snapshot_A snapshot_A) ''OMB'' = Some 0
   \<and> word_count_change (compare_two_snapshots snapshot_A snapshot_B) = 20
   \<and> word_count_change (compare_two_snapshots snapshot_B snapshot_A) = - 20
   \<and> agencies_diff (compare_two_snapshots snapshot_A snapshot_B) ''OMB'' = Some 3
   \<and> agencies_diff (compare_two_snapshots snapshot_B snapshot_A) ''OMB'' = Some (- 3)"
proof -
  have h: "''OMB'' \<in> dom (agencies_diff (compare_two_snapshots snapshot_A snapshot_A))"
    by (simp add: compare_two_snapshots_def snapshot_A_def keys_def dom_def)
  have "\<forall>k \<in> dom (agencies_diff (compare_two_snapshots snapshot_A snapshot_A)).
          agencies_diff (compare_two_snapshots snapshot_A snapshot_A) k = Some 0"
    using compare_antisymmetric [of snapshot_A snapshot_A] by blast
  with h have z: "agencies_diff (compare_two_snapshots snapshot_A snapshot_A) ''OMB'' = Some 0"
    by blast
  have w: "word_count_change (compare_two_snapshots snapshot_A snapshot_B) = 20"
    by (simp add: compare_two_snapshots_def snapshot_A_def snapshot_B_def)
  have w': "word_count_change (compare_two_snapshots snapshot_B snapshot_A) = - 20"
    by (simp add: compare_two_snapshots_def snapshot_A_def snapshot_B_def)
  have a: "agencies_diff (compare_two_snapshots snapshot_A snapshot_B) ''OMB'' = Some 3"
    by (simp add: compare_two_snapshots_def snapshot_A_def snapshot_B_def keys_def dict_get_def)
  have a': "agencies_diff (compare_two_snapshots snapshot_B snapshot_A) ''OMB'' = Some (- 3)"
    by (simp add: compare_two_snapshots_def snapshot_A_def snapshot_B_def keys_def dict_get_def)
  from h z w w' a a' show ?thesis by blast
qed

subsection \<open>Text extraction\<close>





lemma parse_tail_example:
  "parse_ecfr_xml (\<lambda>s. Inr (Element ''a'' (Some ''x'') [Element ''b'' (Some ''y'') [] (Some ''z'')] None)) ''<a>x<b>y</b>z</a>''
    = Inr ''x y''"
  by (simp add: parse_ecfr_xml_def text_fragments_def strip_def join_def is_space_def)

(* C7 *)

subsection \<open>Latest snapshot date\<close>



subsection \<open>The last-result store\<close>

lemma analyze_fetch_fails:
  "fetch_ecfr_xml p (arg date_arg ''2025-01-01'') (arg title_arg ''1'') = Inl e
   \<Longrightarrow> analyze p fromstring date_arg title_arg st = (ServerError (str e), st)"
  by (simp add: analyze_def)

lemma analyze_parse_fails:
  "fetch_ecfr_xml p (arg date_arg ''2025-01-01'') (arg title_arg ''1'') = Inr xml
   \<Longrightarrow> fromstring xml = Inl e
   \<Longrightarrow> analyze p fromstring date_arg title_arg st = (ServerError (str e), st)"
  by (simp add: analyze_def parse_and_analyze_ecfr_xml_def parse_ecfr_xml_def)

lemma analyze_succeeds:
  "fetch_ecfr_xml p (arg date_arg ''2025-01-01'') (arg title_arg ''1'') = Inr xml
   \<Longrightarrow> fromstring xml = Inr root
   \<Longrightarrow> analyze p fromstring date_arg title_arg st =
       (Ok \<lparr>date = arg date_arg ''2025-01-01'', title = arg title_arg ''1'',
            analysis = analyze_ecfr_text (join '' '' (text_fragments root))\<rparr>,
        Some \<lparr>date = arg date_arg ''2025-01-01'', title = arg title_arg ''1'',
            analysis = analyze_ecfr_text (join '' '' (text_fragments root))\<rparr>)"
  by (simp add: analyze_def parse_and_analyze_ecfr_xml_def parse_ecfr_xml_def Let_def)

lemma analyze_cases:
  "(\<exists>e. analyze p fromstring date_arg title_arg st = (ServerError (str e), st))
   \<or> (\<exists>root. analyze p fromstring date_arg title_arg st =
       (Ok \<lparr>date = arg date_arg ''2025-01-01'', title = arg title_arg ''1'',
            analysis = analyze_ecfr_text (join '' '' (text_fragments root))\<rparr>,
        Some \<lparr>date = arg date_arg ''2025-01-01'', title = arg title_arg ''1'',
            analysis = analyze_ecfr_text (join '' '' (text_fragments root))\<rparr>))"
proof (cases "fetch_ecfr_xml p (arg date_arg ''2025-01-01'') (arg title_arg ''1'')")
  case (Inl e)
  then show ?thesis using analyze_fetch_fails by blast
next
  case (Inr xml)
  show ?thesis
  proof (cases "fromstring xml")
    case (Inl e)
    with Inr show ?thesis using analyze_parse_fails by blast
  next
    case r: (Inr root)
    with Inr show ?thesis using analyze_succeeds by blast
  qed
qed

lemma latest_cases:
  "(\<exists>e. latest_analyze p fromstring title_arg st = (ServerError (str e), st))
   \<or> (\<exists>r. latest_analyze p fromstring title_arg st = (Ok r, Some r))"
  by (auto simp add: latest_analyze_def Let_def split: sum.splits)

text \<open>
  C6. A run of \<open>analyze\<close> that fails in the fetch or in the extraction answers with
  the error message and leaves the stored last result as it was; the analysis itself
  cannot fail. The store changes only in a successful run, and then it holds exactly the
  complete snapshot that is returned. The same holds for \<open>latest_analyze\<close>.
\<close>

theorem analyze_store:
  "(\<forall>e. fetch_ecfr_xml p (arg date_arg ''2025-01-01'') (arg title_arg ''1'') = Inl e
      \<longrightarrow> analyze p fromstring date_arg title_arg st = (ServerError (str e), st))
   \<and> (\<forall>xml e. fetch_ecfr_xml p (arg date_arg ''2025-01-01'') (arg title_arg ''1'') = Inr xml
        \<and> fromstring xml = Inl e
      \<longrightarrow> analyze p fromstring date_arg title_arg st = (ServerError (str e), st))
   \<and> (\<forall>xml root. fetch_ecfr_xml p (arg date_arg ''2025-01-01'') (arg title_arg ''1'') = Inr xml
        \<and> fromstring xml = Inr root
      \<longrightarrow> analyze p fromstring date_arg title_arg st =
       (Ok \<lparr>date = arg date_arg ''2025-01-01'', title = arg title_arg ''1'',
            analysis = analyze_ecfr_text (join '' '' (text_fragments root))\<rparr>,
        Some \<lparr>date = arg date_arg ''2025-01-01'', title = arg title_arg ''1'',
            analysis = analyze_ecfr_text (join '' '' (text_fragments root))\<rparr>))
   \<and> (\<forall>m. fst (analyze p fromstring date_arg title_arg st) = ServerError m
      \<longrightarrow> snd (analyze p fromstring date_arg title_arg st) = st)
   \<and> (snd (analyze p fromstring date_arg title_arg st) \<noteq> st
      \<longrightarrow> (\<exists>r. analyze p fromstring date_arg title_arg st = (Ok r, Some r)))
   \<and> (\<forall>m. fst (latest_analyze p fromstring title_arg st) = ServerError m
      \<longrightarrow> snd (latest_analyze p fromstring title_arg st) = st)
   \<and> (snd (latest_analyze p fromstring title_arg st) \<noteq> st
      \<longrightarrow> (\<exists>r. latest_analyze p fromstring title_arg st = (Ok r, Some r)))"
proof -
  have a: "\<forall>m. fst (analyze p fromstring date_arg title_arg st) = ServerError m
      \<longrightarrow> snd (analyze p fromstring date_arg title_arg st) = st"
    using analyze_cases [of p fromstring date_arg title_arg st] by auto
  have b: "snd (analyze p fromstring date_arg title_arg st) \<noteq> st
      \<longrightarrow> (\<exists>r. analyze p fromstring date_arg title_arg st = (Ok r, Some r))"
    using analyze_cases [of p fromstring date_arg title_arg st] by auto
  have c: "\<forall>m. fst (latest_analyze p fromstring title_arg st) = ServerError m
      \<longrightarrow> snd (latest_analyze p fromstring title_arg st) = st"
    using latest_cases [of p fromstring title_arg st] by auto
  have d: "snd (latest_analyze p fromstring title_arg st) \<noteq> st
      \<longrightarrow> (\<exists>r. latest_analyze p fromstring title_arg st = (Ok r, Some r))"
    using latest_cases [of p fromstring title_arg st] by auto
  have e: "\<forall>e. fetch_ecfr_xml p (arg date_arg ''2025-01-01'') (arg title_arg ''1'') = Inl e
      \<longrightarrow> analyze p fromstring date_arg title_arg st = (ServerError (str e), st)"
    using analyze_fetch_fails by blast
  have f: "\<forall>xml e. fetch_ecfr_xml p (arg date_arg ''2025-01-01'') (arg title_arg ''1'') = Inr xml
        \<and> fromstring xml = Inl e
      \<longrightarrow> analyze p fromstring date_arg title_arg st = (ServerError (str e), st)"
    using analyze_parse_fails by blast
  have g: "\<forall>xml root. fetch_ecfr_xml p (arg date_arg ''2025-01-01'') (arg title_arg ''1'') = Inr xml
        \<and> fromstring xml = Inr root
      \<longrightarrow> analyze p fromstring date_arg title_arg st =
       (Ok \<lparr>date = arg date_arg ''2025-01-01'', title = arg title_arg ''1'',
            analysis = analyze_ecfr_text (join '' '' (text_fragments root))\<rparr>,
        Some \<lparr>date = arg date_arg ''2025-01-01'', title = arg title_arg ''1'',
            analysis = analyze_ecfr_text (join '' '' (text_fragments root))\<rparr>)"
    using analyze_succeeds by blast
  show ?thesis
    apply (intro conjI)
          apply (rule e)
         apply (rule f)
        apply (rule g)
       apply (rule a)
      apply (rule b)
     apply (rule c)
    apply (rule d)
    done
qed

theorem analyze_store_witness:
  "fetch_ecfr_xml failing_provider (arg None ''2025-01-01'') (arg (Some ''7'') ''1'')
     = Inl (HTTPError ''404 Client Error'')
   \<and> analyze failing_provider (\<lambda>s. Inl (XMLSyntaxError ''Document is empty'')) None (Some ''7'')
       (Some snapshot_A) = (ServerError ''404 Client Error'', Some snapshot_A)"
proof -
  have h: "fetch_ecfr_xml failing_provider (arg None ''2025-01-01'') (arg (Some ''7'') ''1'')
     = Inl (HTTPError ''404 Client Error'')"
    by (simp add: fetch_ecfr_xml_def failing_provider_def)
  have "analyze failing_provider (\<lambda>s. Inl (XMLSyntaxError ''Document is empty'')) None (Some ''7'')
       (Some snapshot_A) = (ServerError (str (HTTPError ''404 Client Error'')), Some snapshot_A)"
    using analyze_store [of failing_provider None "Some ''7''" "\<lambda>s. Inl (XMLSyntaxError ''Document is empty'')" "Some snapshot_A"] h
    by blast
  with h show ?thesis by simp
qed

subsection \<open>Runs and pieces\<close>

lemma split_sep_not_Nil: "split_sep Q s \<noteq> []"
  by (induction s) (auto split: list.splits)

lemma maximal_runs_split_sep:
  "maximal_runs (\<lambda>c. \<not> Q c) cur s =
     filter (\<lambda>w. w \<noteq> []) ((cur @ hd (split_sep Q s)) # tl (split_sep Q s))"
proof (induction s arbitrary: cur)
  case Nil
  show ?case by simp
next
  case (Cons c cs)
  obtain w ws where ws: "split_sep Q cs = w # ws"
    using split_sep_not_Nil [of Q cs] by (cases "split_sep Q cs") auto
  show ?case
  proof (cases "Q c")
    case True
    have "maximal_runs (\<lambda>c. \<not> Q c) [] cs = filter (\<lambda>w. w \<noteq> []) (split_sep Q cs)"
      using Cons.IH [of "[]"] ws by simp
    with True show ?thesis by simp
  next
    case False
    with Cons.IH [of "cur @ [c]"] ws show ?thesis by simp
  qed
qed

lemma maximal_runs_pieces:
  "maximal_runs (\<lambda>c. \<not> Q c) [] s = filter (\<lambda>w. w \<noteq> []) (split_sep Q s)"
proof -
  obtain w ws where "split_sep Q s = w # ws"
    using split_sep_not_Nil [of Q s] by (cases "split_sep Q s") auto
  then show ?thesis by (simp add: maximal_runs_split_sep)
qed

lemma split_whitespace_tokens: "split text = whitespace_tokens text"
  using maximal_runs_pieces [of is_space "text"] by (simp add: split_def whitespace_tokens_def)




subsection \<open>Word count\<close>

text \<open>
  C8. For every text, the word count of the analyzer is the number of non-empty pieces
  between whitespace characters, and the words counted are these pieces as they stand,
  case and punctuation included. The text \<open>The OMB reviewed OMB policy.\<close> has word
  count 5.
\<close>

theorem word_count_whitespace_tokens:
  "word_count (analyze_ecfr_text text) = int (length (whitespace_tokens text))
   \<and> split text = whitespace_tokens text"
  by (simp add: analyze_ecfr_text_def split_whitespace_tokens)

lemma word_count_example:
  "word_count (analyze_ecfr_text ''The OMB reviewed OMB policy.'') = 5
   \<and> whitespace_tokens ''The OMB reviewed OMB policy.''
       = [''The'', ''OMB'', ''reviewed'', ''OMB'', ''policy.'']"
  by (simp add: analyze_ecfr_text_def split_def whitespace_tokens_def is_space_def)

subsection \<open>Tokens of the top-words computation\<close>








subsection \<open>Dictionaries built in a loop\<close>

lemma first_occurrences_snoc:
  "first_occurrences (xs @ [k]) =
     (if k \<in> set xs then first_occurrences xs else first_occurrences xs @ [k])"
  by (simp add: first_occurrences_def)

lemma set_first_occurrences: "set (first_occurrences xs) = set xs"
  by (simp add: first_occurrences_def)

lemma distinct_first_occurrences: "distinct (first_occurrences xs)"
  by (simp add: first_occurrences_def)

lemma keys_dict_set:
  "keys (dict_set k v d) = (if k \<in> set (keys d) then keys d else keys d @ [k])"
  by (induction d) (force simp add: keys_def)+

lemma map_of_dict_set: "map_of (dict_set k v d) = (map_of d)(k \<mapsto> v)"
  by (induction d) (auto simp add: fun_eq_iff)

lemma keys_foldl_dict_set:
  "keys (foldl (\<lambda>d k. dict_set k (f d k) d) [] ks) = first_occurrences ks"
proof (induction ks rule: rev_induct)
  case Nil
  show ?case by (simp add: keys_def first_occurrences_def)
next
  case (snoc k ks)
  then show ?case
    by (simp add: keys_dict_set first_occurrences_snoc set_first_occurrences)
qed

lemma map_of_foldl_const:
  "map_of (foldl (\<lambda>d k. dict_set k (g k) d) [] ks) k =
     (if k \<in> set ks then Some (g k) else None)"
  by (induction ks rule: rev_induct) (simp_all add: map_of_dict_set)

subsection \<open>Counting substrings\<close>

text \<open>
  The scan of \<open>count_sub\<close> finds as many disjoint occurrences as there can be: its
  result is attained by a list of disjoint occurrences, and no such list is longer.
\<close>

lemma count_sub_short:
  "sub \<noteq> [] \<Longrightarrow> length t < length sub \<Longrightarrow> count_sub sub t = 0"
  by (subst count_sub.simps) simp

lemma count_sub_match:
  "sub \<noteq> [] \<Longrightarrow> \<not> length t < length sub \<Longrightarrow> take (length sub) t = sub
     \<Longrightarrow> count_sub sub t = Suc (count_sub sub (drop (length sub) t))"
  by (subst count_sub.simps) simp

lemma count_sub_skip:
  "sub \<noteq> [] \<Longrightarrow> \<not> length t < length sub \<Longrightarrow> take (length sub) t \<noteq> sub
     \<Longrightarrow> count_sub sub t = count_sub sub (tl t)"
  by (subst count_sub.simps) simp

lemma non_overlapping_Cons:
  "non_overlapping n (a # ps) = ((\<forall>q \<in> set ps. a + n \<le> q) \<and> non_overlapping n ps)"
proof (induction ps arbitrary: a)
  case Nil
  show ?case by simp
next
  case (Cons p ps)
  show ?case using Cons.IH [of p] by fastforce
qed

lemma non_overlapping_shift_down:
  "non_overlapping n ps \<Longrightarrow> \<forall>p \<in> set ps. k \<le> p
     \<Longrightarrow> non_overlapping n (map (\<lambda>p. p - k) ps)"
  by (induction ps) (auto simp add: non_overlapping_Cons)

lemma non_overlapping_shift_up:
  "non_overlapping n ps \<Longrightarrow> non_overlapping n (map (\<lambda>p. p + k) ps)"
  by (induction ps) (auto simp add: non_overlapping_Cons)

lemma occurs_at_drop:
  "occurs_at sub t p \<Longrightarrow> k \<le> p \<Longrightarrow> occurs_at sub (drop k t) (p - k)"
  by (auto simp add: occurs_at_def)

lemma occurs_at_undrop:
  "occurs_at sub (drop k t) p \<Longrightarrow> k \<le> length t \<Longrightarrow> occurs_at sub t (p + k)"
  by (auto simp add: occurs_at_def)

lemma occurrences_drop:
  assumes "occurrences sub t ps" and "\<forall>p \<in> set ps. k \<le> p"
  shows "occurrences sub (drop k t) (map (\<lambda>p. p - k) ps)"
  using assms
  by (auto simp add: occurrences_def list_all_iff non_overlapping_shift_down occurs_at_drop)

lemma occurrences_undrop:
  assumes "occurrences sub (drop k t) ps" and "k \<le> length t"
  shows "occurrences sub t (map (\<lambda>p. p + k) ps)"
  using assms
  by (auto simp add: occurrences_def list_all_iff non_overlapping_shift_up occurs_at_undrop)

lemma count_sub_upper:
  "sub \<noteq> [] \<Longrightarrow> occurrences sub t ps \<Longrightarrow> length ps \<le> count_sub sub t"
proof (induction sub t arbitrary: ps rule: count_sub.induct)
  case (1 sub t)
  let ?n = "length sub"
  from "1.prems" have ne: "sub \<noteq> []" and occ: "occurrences sub t ps" by simp_all
  from ne have npos: "0 < ?n" by simp
  consider (short) "length t < ?n"
    | (match) "\<not> length t < ?n" "take ?n t = sub"
    | (skip) "\<not> length t < ?n" "take ?n t \<noteq> sub"
    by blast
  then show ?case
  proof cases
    case short
    have "ps = []"
    proof (cases ps)
      case Nil
      then show ?thesis .
    next
      case (Cons p ps')
      with occ have "occurs_at sub t p" by (simp add: occurrences_def)
      with short show ?thesis by (simp add: occurs_at_def)
    qed
    then show ?thesis by simp
  next
    case match
    show ?thesis
    proof (cases ps)
      case Nil
      then show ?thesis by simp
    next
      case (Cons p ps')
      with occ have o': "occurrences sub t ps'" and lb: "\<forall>q \<in> set ps'. p + ?n \<le> q"
        by (auto simp add: occurrences_def non_overlapping_Cons)
      from lb have "\<forall>q \<in> set ps'. ?n \<le> q" by auto
      with o' have "occurrences sub (drop ?n t) (map (\<lambda>q. q - ?n) ps')"
        by (rule occurrences_drop)
      with "1.IH"(1) [OF ne match] ne have "length (map (\<lambda>q. q - ?n) ps') \<le> count_sub sub (drop ?n t)"
        by blast
      with Cons show ?thesis by (simp add: count_sub_match [OF ne match])
    qed
  next
    case skip
    have "\<forall>p \<in> set ps. 1 \<le> p"
    proof
      fix p assume "p \<in> set ps"
      with occ have "occurs_at sub t p" by (simp add: occurrences_def list_all_iff)
      with skip show "1 \<le> p" by (cases p) (auto simp add: occurs_at_def)
    qed
    with occ have "occurrences sub (drop 1 t) (map (\<lambda>q. q - 1) ps)"
      by (rule occurrences_drop)
    then have "occurrences sub (tl t) (map (\<lambda>q. q - 1) ps)"
      by (simp add: drop_Suc)
    with "1.IH"(2) [OF ne skip] ne have "length (map (\<lambda>q. q - 1) ps) \<le> count_sub sub (tl t)"
      by blast
    then show ?thesis by (simp add: count_sub_skip [OF ne skip])
  qed
qed

lemma count_sub_attained:
  "sub \<noteq> [] \<Longrightarrow> \<exists>ps. occurrences sub t ps \<and> length ps = count_sub sub t"
proof (induction sub t rule: count_sub.induct)
  case (1 sub t)
  let ?n = "length sub"
  from "1.prems" have ne: "sub \<noteq> []" .
  consider (short) "length t < ?n"
    | (match) "\<not> length t < ?n" "take ?n t = sub"
    | (skip) "\<not> length t < ?n" "take ?n t \<noteq> sub"
    by blast
  then show ?case
  proof cases
    case short
    have "occurrences sub t []" by (simp add: occurrences_def)
    with short ne show ?thesis by (auto simp add: count_sub_short)
  next
    case match
    from "1.IH"(1) [OF ne match ne] obtain ps
      where ps: "occurrences sub (drop ?n t) ps" "length ps = count_sub sub (drop ?n t)"
      by blast
    from match have le: "?n \<le> length t" by simp
    from ps(1) le have up: "occurrences sub t (map (\<lambda>p. p + ?n) ps)"
      by (rule occurrences_undrop)
    from match le have "occurs_at sub t 0" by (simp add: occurs_at_def)
    with up have "occurrences sub t (0 # map (\<lambda>p. p + ?n) ps)"
      by (auto simp add: occurrences_def non_overlapping_Cons)
    moreover have "length (0 # map (\<lambda>p. p + ?n) ps) = count_sub sub t"
      using ps(2) by (simp add: count_sub_match [OF ne match])
    ultimately show ?thesis by blast
  next
    case skip
    from "1.IH"(2) [OF ne skip ne] obtain ps
      where ps: "occurrences sub (tl t) ps" "length ps = count_sub sub (tl t)"
      by blast
    from skip ne have le: "1 \<le> length t" by (cases t) auto
    from ps(1) have "occurrences sub (drop 1 t) ps" by (simp add: drop_Suc)
    from this le have "occurrences sub t (map (\<lambda>p. p + 1) ps)"
      by (rule occurrences_undrop)
    moreover have "length (map (\<lambda>p. p + 1) ps) = count_sub sub t"
      using ps(2) by (simp add: count_sub_skip [OF ne skip])
    ultimately show ?thesis by blast
  qed
qed

subsection \<open>Agency counts\<close>

lemma agencies_foldl:
  "agencies (analyze_ecfr_text t)
     = foldl (\<lambda>d a. dict_set a (int (count_sub a t)) d) [] agencies_to_check"
  by (simp add: analyze_ecfr_text_def)

lemma agencies_to_check_distinct:
  "first_occurrences agencies_to_check = agencies_to_check \<and> [] \<notin> set agencies_to_check"
  by code_simp

text \<open>
  C9. For every text, the analyzer's \<open>agencies\<close> has exactly the five codes NCPC, OMB,
  OPM, NARA and CIO as keys, and the value at each code is the number of
  non-overlapping literal (case-sensitive) occurrences of the code in the text as it
  stands: the count is attained by a list of disjoint occurrences and no list of
  disjoint occurrences is longer. Occurrences inside longer words count. The text
  \<open>The OMB reviewed OMB policy.\<close> gives 2 for OMB and 0 for NCPC.
\<close>

theorem agency_counts:
  "keys (agencies (analyze_ecfr_text t)) = agencies_to_check
   \<and> (\<forall>c \<in> set agencies_to_check.
        map_of (agencies (analyze_ecfr_text t)) c = Some (int (count_sub c t))
        \<and> (\<exists>ps. occurrences c t ps \<and> length ps = count_sub c t)
        \<and> (\<forall>ps. occurrences c t ps \<longrightarrow> length ps \<le> count_sub c t))"
proof -
  have k: "keys (agencies (analyze_ecfr_text t)) = agencies_to_check"
    by (simp add: agencies_foldl keys_foldl_dict_set agencies_to_check_distinct)
  have v: "\<forall>c \<in> set agencies_to_check.
        map_of (agencies (analyze_ecfr_text t)) c = Some (int (count_sub c t))
        \<and> (\<exists>ps. occurrences c t ps \<and> length ps = count_sub c t)
        \<and> (\<forall>ps. occurrences c t ps \<longrightarrow> length ps \<le> count_sub c t)"
  proof
    fix c assume c: "c \<in> set agencies_to_check"
    with agencies_to_check_distinct have ne: "c \<noteq> []" by auto
    from c have "map_of (agencies (analyze_ecfr_text t)) c = Some (int (count_sub c t))"
      by (simp add: agencies_foldl map_of_foldl_const)
    with count_sub_attained [OF ne] count_sub_upper [OF ne]
    show "map_of (agencies (analyze_ecfr_text t)) c = Some (int (count_sub c t))
        \<and> (\<exists>ps. occurrences c t ps \<and> length ps = count_sub c t)
        \<and> (\<forall>ps. occurrences c t ps \<longrightarrow> length ps \<le> count_sub c t)"
      by blast
  qed
  from k v show ?thesis by (rule conjI)
qed

theorem agency_counts_witness:
  "''OMB'' \<in> set agencies_to_check \<and> ''NCPC'' \<in> set agencies_to_check
   \<and> map_of (agencies (analyze_ecfr_text ''The OMB reviewed OMB policy.'')) ''OMB'' = Some 2
   \<and> map_of (agencies (analyze_ecfr_text ''The OMB reviewed OMB policy.'')) ''NCPC'' = Some 0
   \<and> occurrences ''OMB'' ''The OMB reviewed OMB policy.'' [4, 17]
   \<and> map_of (agencies (analyze_ecfr_text ''xOMBy and omb'')) ''OMB'' = Some 1"
proof -
  let ?t = "''The OMB reviewed OMB policy.''"
  have m: "''OMB'' \<in> set agencies_to_check" and m': "''NCPC'' \<in> set agencies_to_check"
    by (simp_all add: agencies_to_check_def)
  have o: "occurrences ''OMB'' ?t [4, 17]" by code_simp
  have c1: "count_sub ''OMB'' ?t = 2" by code_simp
  have c2: "count_sub ''NCPC'' ?t = 0" by code_simp
  have c3: "count_sub ''OMB'' ''xOMBy and omb'' = 1" by code_simp
  from agency_counts [of ?t] m
  have a: "map_of (agencies (analyze_ecfr_text ?t)) ''OMB'' = Some (int (count_sub ''OMB'' ?t))"
    by blast
  from agency_counts [of ?t] m'
  have b: "map_of (agencies (analyze_ecfr_text ?t)) ''NCPC'' = Some (int (count_sub ''NCPC'' ?t))"
    by blast
  from agency_counts [of "''xOMBy and omb''"] m
  have c: "map_of (agencies (analyze_ecfr_text ''xOMBy and omb'')) ''OMB''
      = Some (int (count_sub ''OMB'' ''xOMBy and omb''))"
    by blast
  from agency_counts [of ?t] m o have "length [4, 17 :: nat] \<le> count_sub ''OMB'' ?t"
    by blast
  from m m' a b c o c1 c2 c3 show ?thesis by simp
qed

subsection \<open>Keyword search\<close>

lemma keys_keyword_frequencies:
  "keys (keyword_frequencies t kws) = first_occurrences kws"
  by (simp add: keyword_frequencies_def Let_def keys_foldl_dict_set)

lemma map_of_keyword_frequencies:
  "map_of (keyword_frequencies t kws) kw =
     (if kw \<in> set kws then Some (int (count_sub (lower kw) (lower t))) else None)"
  by (simp add: keyword_frequencies_def Let_def map_of_foldl_const)

lemma lower_Nil_iff: "lower w = [] \<longleftrightarrow> w = []"
  by (simp add: lower_def)

lemma keyword_search_ok:
  "fetch_ecfr_xml p (arg date_arg ''2025-01-01'') (arg title_arg ''1'') = Inr xml
   \<Longrightarrow> fromstring xml = Inr root
   \<Longrightarrow> keyword_search p fromstring date_arg title_arg keywords_arg =
       Ok \<lparr>date = arg date_arg ''2025-01-01'', title = arg title_arg ''1'',
           search_keywords = keywords_list (arg keywords_arg []),
           frequencies = keyword_frequencies (join '' '' (text_fragments root))
                           (keywords_list (arg keywords_arg []))\<rparr>"
  by (simp add: keyword_search_def parse_ecfr_xml_def Let_def)

text \<open>
  C2 (as amended). The frequencies of a keyword search form a dictionary with one entry
  for each distinct trimmed keyword, in the order of first occurrence: a keyword that
  is repeated overwrites its own entry. Each entry is keyed by the keyword as it was
  written and holds the number of occurrences of the lowercased keyword in the
  lowercased text. Two keywords that differ only by case are two keys with two entries
  of their own, holding the same count.
\<close>

theorem keyword_frequencies_entries:
  "keys (keyword_frequencies t kws) = first_occurrences kws
   \<and> distinct (keys (keyword_frequencies t kws))
   \<and> set (keys (keyword_frequencies t kws)) = set kws
   \<and> (\<forall>kw \<in> set kws. map_of (keyword_frequencies t kws) kw
          = Some (int (count_sub (lower kw) (lower t))))
   \<and> (\<forall>k1 \<in> set kws. \<forall>k2 \<in> set kws. k1 \<noteq> k2 \<and> lower k1 = lower k2 \<longrightarrow>
          k1 \<in> set (keys (keyword_frequencies t kws))
        \<and> k2 \<in> set (keys (keyword_frequencies t kws))
        \<and> map_of (keyword_frequencies t kws) k1 = map_of (keyword_frequencies t kws) k2)"
  by (simp add: keys_keyword_frequencies map_of_keyword_frequencies
      set_first_occurrences distinct_first_occurrences)

theorem keyword_frequencies_entries_witness:
  "keywords_list ''omb, OMB ,omb'' = [''omb'', ''OMB'', ''omb'']
   \<and> keys (keyword_frequencies ''The OMB reviewed OMB policy.'' [''omb'', ''OMB'', ''omb''])
       = [''omb'', ''OMB'']
   \<and> map_of (keyword_frequencies ''The OMB reviewed OMB policy.'' [''omb'', ''OMB'', ''omb''])
        ''omb'' = Some 2
   \<and> map_of (keyword_frequencies ''The OMB reviewed OMB policy.'' [''omb'', ''OMB'', ''omb''])
        ''OMB'' = Some 2"
proof -
  let ?t = "''The OMB reviewed OMB policy.''"
  let ?ks = "[''omb'', ''OMB'', ''omb'']"
  note th = keyword_frequencies_entries [of ?t ?ks]
  have k: "keywords_list ''omb, OMB ,omb'' = ?ks" by code_simp
  have f: "first_occurrences ?ks = [''omb'', ''OMB'']" by code_simp
  have c1: "int (count_sub (lower ''omb'') (lower ?t)) = 2" by code_simp
  have c2: "int (count_sub (lower ''OMB'') (lower ?t)) = 2" by code_simp
  have m1: "''omb'' \<in> set ?ks" and m2: "''OMB'' \<in> set ?ks" by simp_all
  from th have a: "keys (keyword_frequencies ?t ?ks) = first_occurrences ?ks" by blast
  from th m1 have b: "map_of (keyword_frequencies ?t ?ks) ''omb''
      = Some (int (count_sub (lower ''omb'') (lower ?t)))" by blast
  from th m2 have c: "map_of (keyword_frequencies ?t ?ks) ''OMB''
      = Some (int (count_sub (lower ''OMB'') (lower ?t)))" by blast
  from k a b c f c1 c2 show ?thesis by simp
qed

text \<open>
  The claim as first stated, that each of two identical keywords has an entry of its
  own, fails: for the keywords \<open>a, a\<close> the result has the single entry for \<open>a\<close>.
\<close>

theorem keyword_duplicates_counterexample:
  "keywords_list ''a, a'' = [''a'', ''a'']
   \<and> keyword_frequencies ''a b a'' (keywords_list ''a, a'') = [(''a'', 2)]
   \<and> length (keyword_frequencies ''a b a'' (keywords_list ''a, a'')) = 1"
  by code_simp

text \<open>
  C5. Keyword search is case-insensitive: for every text, two keywords with the same
  lowercase form (case variants of one another) get the same count, whatever lists
  they are searched in; the count of a keyword is the number of non-overlapping
  occurrences of its lowercase form in the lowercased text. Searching
  \<open>Privacy and privacy again\<close> for \<open>privacy\<close> gives the single entry
  \<open>privacy\<close> with count 2.
\<close>

theorem keyword_search_case_insensitive:
  "(\<forall>kws kws'. w \<in> set kws \<and> w' \<in> set kws' \<and> lower w = lower w' \<longrightarrow>
      map_of (keyword_frequencies t kws) w = map_of (keyword_frequencies t kws') w')
   \<and> keyword_frequencies t [w] = [(w, int (count_sub (lower w) (lower t)))]
   \<and> (w \<noteq> [] \<longrightarrow>
        (\<exists>ps. occurrences (lower w) (lower t) ps \<and> length ps = count_sub (lower w) (lower t))
      \<and> (\<forall>ps. occurrences (lower w) (lower t) ps
            \<longrightarrow> length ps \<le> count_sub (lower w) (lower t)))"
proof -
  have 1: "\<forall>kws kws'. w \<in> set kws \<and> w' \<in> set kws' \<and> lower w = lower w' \<longrightarrow>
      map_of (keyword_frequencies t kws) w = map_of (keyword_frequencies t kws') w'"
    by (simp add: map_of_keyword_frequencies)
  have 2: "keyword_frequencies t [w] = [(w, int (count_sub (lower w) (lower t)))]"
    by (simp add: keyword_frequencies_def Let_def)
  have 3: "w \<noteq> [] \<longrightarrow>
        (\<exists>ps. occurrences (lower w) (lower t) ps \<and> length ps = count_sub (lower w) (lower t))
      \<and> (\<forall>ps. occurrences (lower w) (lower t) ps
            \<longrightarrow> length ps \<le> count_sub (lower w) (lower t))"
  proof
    assume "w \<noteq> []"
    then have ne: "lower w \<noteq> []" by (simp add: lower_Nil_iff)
    from count_sub_attained [OF ne] count_sub_upper [OF ne]
    show "(\<exists>ps. occurrences (lower w) (lower t) ps \<and> length ps = count_sub (lower w) (lower t))
      \<and> (\<forall>ps. occurrences (lower w) (lower t) ps
            \<longrightarrow> length ps \<le> count_sub (lower w) (lower t))"
      by blast
  qed
  from 1 2 3 show ?thesis by blast
qed

theorem keyword_search_case_insensitive_witness:
  "lower ''privacy'' = lower ''PRIVACY''
   \<and> keyword_frequencies ''Privacy and privacy again'' [''privacy''] = [(''privacy'', 2)]
   \<and> map_of (keyword_frequencies ''Privacy and privacy again'' [''PRIVACY'']) ''PRIVACY''
       = Some 2
   \<and> occurrences (lower ''privacy'') (lower ''Privacy and privacy again'') [0, 12]"
proof -
  let ?t = "''Privacy and privacy again''"
  note th = keyword_search_case_insensitive [of "''privacy''" "''PRIVACY''" ?t]
  have l: "lower ''privacy'' = lower ''PRIVACY''" by code_simp
  have c: "int (count_sub (lower ''privacy'') (lower ?t)) = 2" by code_simp
  have o: "occurrences (lower ''privacy'') (lower ?t) [0, 12]" by code_simp
  from th have f: "keyword_frequencies ?t [''privacy'']
      = [(''privacy'', int (count_sub (lower ''privacy'') (lower ?t)))]"
    by blast
  have "''privacy'' \<in> set [''privacy''] \<and> ''PRIVACY'' \<in> set [''PRIVACY'']
      \<and> lower ''privacy'' = lower ''PRIVACY''"
    using l by simp
  with th have e: "map_of (keyword_frequencies ?t [''privacy'']) ''privacy''
      = map_of (keyword_frequencies ?t [''PRIVACY'']) ''PRIVACY''"
    by blast
  from l c o f e show ?thesis by simp
qed

end
